theory Spec2Isabelle
  imports Main "HOL-Library.Sublist" "HOL-Library.Monad_Syntax"
begin

section \<open>The host document\<close>

text \<open>
  The validator of \<^verbatim>\<open>src/validate.ts\<close> owns no data: it reads a DOM that the browser
  owns. The browser is modelled as a record of the read operations the source calls.
  An \<^verbatim>\<open>HTMLElement\<close> is an opaque handle compared by identity (\<^verbatim>\<open>===\<close>); \<^verbatim>\<open>null\<close> and
  \<^verbatim>\<open>undefined\<close> are both \<open>None\<close> (the source only ever tests them for truthiness or
  compares \<^verbatim>\<open>null\<close> with \<^verbatim>\<open>null\<close>).
\<close>

type_synonym element = nat

text \<open>The two properties the source reads from a \<^verbatim>\<open>CSSStyleDeclaration\<close>.\<close>

record css_style =
  position :: string
  display :: string

text \<open>\<^verbatim>\<open>document.querySelectorAll\<close> throws on a selector it cannot parse.\<close>

datatype dom_exception = SyntaxError string

text \<open>The calls made on \<^verbatim>\<open>document\<close>, in the order they are made.\<close>

datatype document_query = QuerySelector string | QuerySelectorAll string

record host =
  style :: "element \<Rightarrow> css_style"
  getComputedStyle :: "element \<Rightarrow> css_style"
  offsetParent :: "element \<Rightarrow> element option"
  parentElement :: "element \<Rightarrow> element option"
  contains :: "element \<Rightarrow> element \<Rightarrow> bool"
  querySelector :: "string \<Rightarrow> element option"
  querySelectorAll :: "string \<Rightarrow> dom_exception + element list"
  userAgent :: string

section \<open>JavaScript primitives used by the source\<close>

text \<open>\<^verbatim>\<open>s.includes(t)\<close>: \<open>t\<close> occurs in \<open>s\<close> as a contiguous substring.\<close>

fun includes_str :: "string \<Rightarrow> string \<Rightarrow> bool" where
  "includes_str [] t = (t = [])"
| "includes_str (c # s) t = (prefix t (c # s) \<or> includes_str s t)"

text \<open>\<^verbatim>\<open>xs.join(sep)\<close> on an array of strings.\<close>

fun join :: "string list \<Rightarrow> string \<Rightarrow> string" where
  "join [] sep = []"
| "join [x] sep = x"
| "join (x # y # ys) sep = x @ sep @ join (y # ys) sep"

text \<open>\<^verbatim>\<open>xs[i]\<close>: reading an array outside its bounds gives \<^verbatim>\<open>undefined\<close>.\<close>

definition array_get :: "'a list \<Rightarrow> int \<Rightarrow> 'a option" where
  "array_get xs i = (if 0 \<le> i \<and> i < int (length xs) then Some (xs ! nat i) else None)"

section \<open>Positioning probe\<close>

definition isAbsolutelyPositioned :: "host \<Rightarrow> element option \<Rightarrow> bool" where
  "isAbsolutelyPositioned h el =
     (case el of
        None \<Rightarrow> False
      | Some e \<Rightarrow> position (style h e) = ''absolute''
                 \<or> position (getComputedStyle h e) = ''absolute'')"

definition hasDisplayNone :: "host \<Rightarrow> element option \<Rightarrow> bool" where
  "hasDisplayNone h el =
     (case el of
        None \<Rightarrow> False
      | Some e \<Rightarrow> display (style h e) = ''none''
                 \<or> display (getComputedStyle h e) = ''none'')"

section \<open>Initial-containing-block detector\<close>

text \<open>
  The result is paired with the document queries issued: the source always evaluates
  \<^verbatim>\<open>document.querySelector('body')\<close>, the left operand of its \<^verbatim>\<open>&&\<close>.
\<close>

definition isContainingBlockICB :: "host \<Rightarrow> element \<Rightarrow> document_query list \<times> bool" where
  "isContainingBlockICB h floatingElement =
     (let isDisplayNone =
            (hasDisplayNone h (Some floatingElement)
             \<or> hasDisplayNone h (parentElement h floatingElement));
          cbIsBodyElementFromFF =
            (offsetParent h floatingElement = querySelector h ''body''
             \<and> includes_str (userAgent h) ''Firefox'');
          offsetParentNullOrBody =
            (offsetParent h floatingElement = None \<or> cbIsBodyElementFromFF)
      in ([QuerySelector ''body''],
          if offsetParentNullOrBody \<and> \<not> isDisplayNone then True else False))"

section \<open>Anchor validity predicate\<close>

text \<open>
  The \<^verbatim>\<open>while\<close> loop of Rule 2. Nothing in the source bounds it: on a host whose
  \<^verbatim>\<open>offsetParent\<close> links form a cycle that avoids the floating element's containing
  block it runs forever, which is the value \<open>None\<close> here.
\<close>

partial_function (option) walkCBchain ::
  "host \<Rightarrow> element option \<Rightarrow> element option \<Rightarrow> element list \<Rightarrow> element list option" where
  "walkCBchain h currentCB floatingCB anchorCBchain =
     (case currentCB of
        None \<Rightarrow> Some anchorCBchain
      | Some c \<Rightarrow>
          if Some c \<noteq> floatingCB
          then walkCBchain h (offsetParent h c) floatingCB (anchorCBchain @ [c])
          else Some anchorCBchain)"

definition isValidAnchorElement ::
  "host \<Rightarrow> element \<Rightarrow> element \<Rightarrow> (document_query list \<times> bool) option" where
  "isValidAnchorElement h anchor floating =
     (if isAbsolutelyPositioned h (Some anchor)
         \<and> offsetParent h anchor = offsetParent h floating
      then Some ([], False)
      else do {
        tailIsAbsolute \<leftarrow>
          (if offsetParent h anchor \<noteq> offsetParent h floating
           then do {
             anchorCBchain \<leftarrow>
               walkCBchain h (offsetParent h anchor) (offsetParent h floating) [];
             let lastInChain = array_get anchorCBchain (int (length anchorCBchain) - 1);
             Some (isAbsolutelyPositioned h lastInChain)
           }
           else Some False);
        if tailIsAbsolute then Some ([], False)
        else do {
          let isDescendant =
                (case offsetParent h floating of
                   None \<Rightarrow> False
                 | Some p \<Rightarrow> contains h p anchor);
          let (queries, floatingCBIsInitialCB) = isContainingBlockICB h floating;
          Some (queries, if isDescendant \<or> floatingCBIsInitialCB then True else False)
        }
      })"

section \<open>Candidate lookup\<close>

text \<open>The \<^verbatim>\<open>for ... of\<close> loop over the matched elements, with its early return.\<close>

fun firstValidAnchor ::
  "host \<Rightarrow> element \<Rightarrow> element list \<Rightarrow> (document_query list \<times> element option) option" where
  "firstValidAnchor h floatingEl [] = Some ([], None)"
| "firstValidAnchor h floatingEl (anchor # rest) = do {
     (queries, valid) \<leftarrow> isValidAnchorElement h anchor floatingEl;
     if valid then Some (queries, Some anchor)
     else do {
       (queries', found) \<leftarrow> firstValidAnchor h floatingEl rest;
       Some (queries @ queries', found)
     }
   }"

text \<open>
  The outcome is \<open>None\<close> when a validity check never returns; otherwise the document
  queries issued, with either the exception thrown by \<^verbatim>\<open>querySelectorAll\<close> or the
  returned element (\<open>None\<close> for \<^verbatim>\<open>null\<close>).
\<close>

definition validatedForPositioning ::
  "host \<Rightarrow> element option \<Rightarrow> string list
     \<Rightarrow> (document_query list \<times> (dom_exception + element option)) option" where
  "validatedForPositioning h floatingEl anchorSelectors =
     (case floatingEl of
        None \<Rightarrow> Some ([], Inr None)
      | Some f \<Rightarrow>
          let selector = join anchorSelectors '', '' in
          (case querySelectorAll h selector of
             Inl e \<Rightarrow> Some ([QuerySelectorAll selector], Inl e)
           | Inr anchorElements \<Rightarrow> do {
               (queries, found) \<leftarrow> firstValidAnchor h f anchorElements;
               Some (QuerySelectorAll selector # queries, Inr found)
             }))"

section \<open>Notions used to state the properties\<close>

text \<open>
  The invariant the algorithm trusts: following \<^verbatim>\<open>offsetParent\<close> never runs forever.
  The pair \<open>(p, c)\<close> is in the relation when \<open>p\<close> is the containing-block parent of \<open>c\<close>.
\<close>

definition cb_acyclic :: "host \<Rightarrow> bool" where
  "cb_acyclic h = wf {(p, c). offsetParent h c = Some p}"

text \<open>
  The containing-block chain as the specification words it: start at a (possibly absent)
  node, accumulate each visited node, stop when the current node is the floating
  element's containing-block parent or no parent remains.
\<close>

inductive cb_chain ::
  "host \<Rightarrow> element option \<Rightarrow> element option \<Rightarrow> element list \<Rightarrow> bool" where
  chain_absent: "cb_chain h None stop []"
| chain_reached: "cb_chain h (Some c) (Some c) []"
| chain_step: "Some c \<noteq> stop \<Longrightarrow> cb_chain h (offsetParent h c) stop cs
                \<Longrightarrow> cb_chain h (Some c) stop (c # cs)"

text \<open>
  The same document with the inline and computed \<^verbatim>\<open>position\<close> of the elements in \<open>S\<close>
  replaced; everything else is left as it is.
\<close>

definition with_positions ::
  "host \<Rightarrow> element set \<Rightarrow> (element \<Rightarrow> string) \<Rightarrow> (element \<Rightarrow> string) \<Rightarrow> host" where
  "with_positions h S inline computed =
     h\<lparr>style := (\<lambda>e. if e \<in> S then (style h e)\<lparr>position := inline e\<rparr> else style h e),
       getComputedStyle :=
         (\<lambda>e. if e \<in> S then (getComputedStyle h e)\<lparr>position := computed e\<rparr>
              else getComputedStyle h e)\<rparr>"

text \<open>The same document with the containing-block parent of one element absent.\<close>

definition without_offsetParent :: "host \<Rightarrow> element \<Rightarrow> host" where
  "without_offsetParent h e = h\<lparr>offsetParent := (offsetParent h)(e := None)\<rparr>"

section \<open>An example document\<close>

text \<open>
  A page as Firefox reports it. Element 1 is \<^verbatim>\<open>body\<close>; 2 is a positioned box \<open>F\<close>
  inside it. Inside \<open>F\<close>: the floating element 6; the anchors 7 (static) and 8 (inline
  \<^verbatim>\<open>position: absolute\<close>); the nested boxes 3 (absolute by stylesheet), 4 and the
  anchor 5 innermost; and the nested boxes 9 (static), 10 (absolute by stylesheet) and
  the anchor 11 innermost. Directly in \<^verbatim>\<open>body\<close>: 12 and 13 with no containing-block
  parent, 14 with \<^verbatim>\<open>display: none\<close> and its child 16, and 15 whose containing-block
  parent Firefox reports as \<^verbatim>\<open>body\<close>.
\<close>

definition page_offsetParent :: "element \<Rightarrow> element option" where
  "page_offsetParent e =
     (if e = 2 then Some 1 else if e = 3 then Some 2 else if e = 4 then Some 3
      else if e = 5 then Some 4 else if e = 6 then Some 2 else if e = 7 then Some 2
      else if e = 8 then Some 2 else if e = 9 then Some 2 else if e = 10 then Some 9
      else if e = 11 then Some 10 else if e = 15 then Some 1 else None)"

definition page_parentElement :: "element \<Rightarrow> element option" where
  "page_parentElement e =
     (if e = 2 then Some 1 else if e = 3 then Some 2 else if e = 4 then Some 3
      else if e = 5 then Some 4 else if e = 6 then Some 2 else if e = 7 then Some 2
      else if e = 8 then Some 2 else if e = 9 then Some 2 else if e = 10 then Some 9
      else if e = 11 then Some 10 else if e = 12 then Some 1 else if e = 13 then Some 1
      else if e = 14 then Some 1 else if e = 15 then Some 1 else if e = 16 then Some 14
      else None)"

definition page_contains :: "element \<Rightarrow> element \<Rightarrow> bool" where
  "page_contains p a =
     (a = p \<or> (p = 1 \<and> 2 \<le> a \<and> a \<le> 16) \<or> (p = 2 \<and> 3 \<le> a \<and> a \<le> 11)
      \<or> (p = 3 \<and> (a = 4 \<or> a = 5)) \<or> (p = 4 \<and> a = 5)
      \<or> (p = 9 \<and> (a = 10 \<or> a = 11)) \<or> (p = 10 \<and> a = 11) \<or> (p = 14 \<and> a = 16))"

definition page :: host where
  "page =
     \<lparr>style = (\<lambda>e. \<lparr>position = (if e = 8 then ''absolute'' else ''''), display = ''''\<rparr>),
      getComputedStyle =
        (\<lambda>e. \<lparr>position = (if e = 3 \<or> e = 8 \<or> e = 10 then ''absolute'' else ''static''),
              display = (if e = 14 then ''none'' else ''block'')\<rparr>),
      offsetParent = page_offsetParent,
      parentElement = page_parentElement,
      contains = page_contains,
      querySelector = (\<lambda>s. if s = ''body'' then Some 1 else None),
      querySelectorAll =
        (\<lambda>s. if s = '''' then Inl (SyntaxError ''The provided selector is empty'')
             else if s = ''.tip, #menu'' then Inr [5, 7]
             else Inr []),
      userAgent = ''Mozilla/5.0 (X11; Linux x86_64; rv:128.0) Gecko/20100101 Firefox/128.0''\<rparr>"

section \<open>The JavaScript primitives\<close>

text \<open>\<^verbatim>\<open>includes\<close> is the contiguous-substring test.\<close>

lemma includes_str_sublist: "includes_str s t = sublist t s"
  by (induction s) (auto simp: sublist_Cons_right)

section \<open>The containing-block walk and the validity predicate along it\<close>

text \<open>
  The loop computes the chain of the specification whenever there is one, and on a
  document with well-founded containing-block links there always is one.
\<close>

lemma walkCBchain_None: "walkCBchain h None stop acc = Some acc"
  by (subst walkCBchain.simps) simp

lemma walkCBchain_Some:
  "walkCBchain h (Some c) stop acc =
     (if Some c \<noteq> stop then walkCBchain h (offsetParent h c) stop (acc @ [c]) else Some acc)"
  by (subst walkCBchain.simps) simp

lemma walkCBchain_chain:
  "cb_chain h cur stop chain \<Longrightarrow> walkCBchain h cur stop acc = Some (acc @ chain)"
proof (induction arbitrary: acc rule: cb_chain.induct)
  case (chain_absent h stop)
  show ?case by (simp add: walkCBchain_None)
next
  case (chain_reached h c)
  show ?case by (simp add: walkCBchain_Some)
next
  case (chain_step c stop h cs)
  then show ?case by (simp add: walkCBchain_Some)
qed

lemma cb_chain_exists_elem:
  assumes "cb_acyclic h"
  shows "\<exists>chain. cb_chain h (Some c) stop chain"
  using assms unfolding cb_acyclic_def
proof (induction c rule: wf_induct_rule)
  case (less c)
  show ?case
  proof (cases "Some c = stop")
    case True
    then show ?thesis using chain_reached by blast
  next
    case False
    show ?thesis
    proof (cases "offsetParent h c")
      case None
      then show ?thesis using False chain_step [of c stop h "[]"] chain_absent by auto
    next
      case (Some p)
      then obtain cs where "cb_chain h (Some p) stop cs" using less by auto
      then show ?thesis using False Some chain_step [of c stop h cs] by auto
    qed
  qed
qed

lemma cb_chain_exists: "cb_acyclic h \<Longrightarrow> \<exists>chain. cb_chain h cur stop chain"
  by (cases cur) (auto intro: chain_absent cb_chain_exists_elem)

lemma cb_chain_unique: "cb_chain h cur stop xs \<Longrightarrow> cb_chain h cur stop ys \<Longrightarrow> xs = ys"
  using walkCBchain_chain [of h cur stop xs "[]"] walkCBchain_chain [of h cur stop ys "[]"]
  by simp

text \<open>
  Conversely the loop returns only when such a chain exists, so it returns exactly on
  the starting points with a finite chain; on an element that is its own
  containing-block parent it never does.
\<close>

lemma walkCBchain_returns_chain:
  assumes "walkCBchain h cur stop acc = Some r"
  shows "\<exists>chain. cb_chain h cur stop chain \<and> r = acc @ chain"
proof (rule walkCBchain.raw_induct
    [where P = "\<lambda>h cur stop acc r. \<exists>chain. cb_chain h cur stop chain \<and> r = acc @ chain",
      OF _ assms])
  fix walk h cur stop acc r
  assume IH: "\<And>h cur stop acc r. walk h cur stop acc = Some r
                \<Longrightarrow> \<exists>chain. cb_chain h cur stop chain \<and> r = acc @ chain"
    and body: "(case cur of
                  None \<Rightarrow> Some acc
                | Some c \<Rightarrow> if Some c \<noteq> stop
                           then walk h (offsetParent h c) stop (acc @ [c])
                           else Some acc) = Some r"
  show "\<exists>chain. cb_chain h cur stop chain \<and> r = acc @ chain"
  proof (cases cur)
    case None
    then show ?thesis using body chain_absent by auto
  next
    case (Some c)
    show ?thesis
    proof (cases "Some c = stop")
      case True
      then show ?thesis using body Some chain_reached by auto
    next
      case False
      then have "walk h (offsetParent h c) stop (acc @ [c]) = Some r"
        using body Some by simp
      then obtain cs where "cb_chain h (offsetParent h c) stop cs" "r = (acc @ [c]) @ cs"
        using IH by blast
      then show ?thesis using False Some chain_step [of c stop h cs] by auto
    qed
  qed
qed

lemma walkCBchain_returns_iff:
  "(\<exists>r. walkCBchain h cur stop acc = Some r) = (\<exists>chain. cb_chain h cur stop chain)"
  using walkCBchain_returns_chain walkCBchain_chain by blast

lemma no_chain_on_self_parent:
  assumes "offsetParent h c = Some c" and "Some c \<noteq> stop"
  shows "\<not> cb_chain h (Some c) stop chain"
proof
  assume "cb_chain h (Some c) stop chain"
  then show False
    using assms
  proof (induction h "Some c" stop chain rule: cb_chain.induct)
    case (chain_reached h)
    then show ?case by simp
  next
    case (chain_step stop h cs)
    then show ?case by simp
  qed
qed

lemma walkCBchain_self_parent:
  assumes "offsetParent h c = Some c" and "Some c \<noteq> stop"
  shows "walkCBchain h (Some c) stop acc = None"
  using walkCBchain_returns_chain [of h "Some c" stop acc] no_chain_on_self_parent [OF assms]
  by (cases "walkCBchain h (Some c) stop acc") auto

lemma array_get_last: "array_get xs (int (length xs) - 1) = (if xs = [] then None else Some (last xs))"
  by (cases xs rule: rev_cases) (auto simp: array_get_def nth_append)

lemma cb_chain_same_links:
  "cb_chain h cur stop cs \<Longrightarrow> offsetParent h' = offsetParent h \<Longrightarrow> cb_chain h' cur stop cs"
proof (induction rule: cb_chain.induct)
  case (chain_absent h stop)
  show ?case by (rule cb_chain.chain_absent)
next
  case (chain_reached h c)
  show ?case by (rule cb_chain.chain_reached)
next
  case (chain_step c stop h cs)
  then show ?case using cb_chain.chain_step [of c stop h' cs] by simp
qed

lemma isContainingBlockICB_queries:
  "isContainingBlockICB h f = ([QuerySelector ''body''], snd (isContainingBlockICB h f))"
  by (simp add: isContainingBlockICB_def)

lemma isValidAnchorElement_chain:
  assumes "cb_chain h (offsetParent h anchor) (offsetParent h floating) chain"
  shows "isValidAnchorElement h anchor floating =
     (if isAbsolutelyPositioned h (Some anchor) \<and> offsetParent h anchor = offsetParent h floating
      then Some ([], False)
      else if offsetParent h anchor \<noteq> offsetParent h floating \<and> chain \<noteq> []
              \<and> isAbsolutelyPositioned h (Some (last chain))
      then Some ([], False)
      else Some ([QuerySelector ''body''],
                 (case offsetParent h floating of None \<Rightarrow> False | Some p \<Rightarrow> contains h p anchor)
                 \<or> snd (isContainingBlockICB h floating)))"
proof -
  have w: "walkCBchain h (offsetParent h anchor) (offsetParent h floating) [] = Some chain"
    using walkCBchain_chain [OF assms, of "[]"] by simp
  have n: "\<not> isAbsolutelyPositioned h None"
    by (simp add: isAbsolutelyPositioned_def)
  show ?thesis
    unfolding isValidAnchorElement_def
    by (subst isContainingBlockICB_queries) (simp add: w array_get_last n)
qed

lemma isValidAnchorElement_differ:
  assumes "cb_chain h (offsetParent h anchor) (offsetParent h floating) chain"
    and "offsetParent h anchor \<noteq> offsetParent h floating"
  shows "isValidAnchorElement h anchor floating =
     (if chain \<noteq> [] \<and> isAbsolutelyPositioned h (Some (last chain))
      then Some ([], False)
      else Some ([QuerySelector ''body''],
                 (case offsetParent h floating of None \<Rightarrow> False | Some p \<Rightarrow> contains h p anchor)
                 \<or> snd (isContainingBlockICB h floating)))"
  using assms(2) by (simp add: isValidAnchorElement_chain [OF assms(1)])

lemma isValidAnchorElement_returns:
  assumes "cb_acyclic h"
  shows "isValidAnchorElement h anchor floating \<noteq> None"
proof -
  obtain chain where "cb_chain h (offsetParent h anchor) (offsetParent h floating) chain"
    using cb_chain_exists [OF assms] by blast
  then show ?thesis by (simp add: isValidAnchorElement_chain del: not_None_eq)
qed

lemma with_positions_simps:
  "offsetParent (with_positions h S i c) = offsetParent h"
  "parentElement (with_positions h S i c) = parentElement h"
  "contains (with_positions h S i c) = contains h"
  "querySelector (with_positions h S i c) = querySelector h"
  "userAgent (with_positions h S i c) = userAgent h"
  by (simp_all add: with_positions_def)

lemma with_positions_ICB:
  "isContainingBlockICB (with_positions h S i c) f = isContainingBlockICB h f"
proof -
  have "hasDisplayNone (with_positions h S i c) el = hasDisplayNone h el" for el
    by (cases el) (simp_all add: hasDisplayNone_def with_positions_def)
  then show ?thesis
    by (simp add: isContainingBlockICB_def with_positions_simps)
qed

lemma with_positions_other:
  "e \<notin> S \<Longrightarrow> isAbsolutelyPositioned (with_positions h S i c) (Some e)
              = isAbsolutelyPositioned h (Some e)"
  by (simp add: isAbsolutelyPositioned_def with_positions_def)

lemma firstValidAnchor_find:
  assumes "cb_acyclic h"
  shows "\<exists>queries. firstValidAnchor h floatingEl anchorElements =
           Some (queries,
                 find (\<lambda>anchor. map_option snd (isValidAnchorElement h anchor floatingEl)
                                 = Some True) anchorElements)"
proof (induction anchorElements)
  case Nil
  show ?case by simp
next
  case (Cons anchor rest)
  obtain queries valid where v: "isValidAnchorElement h anchor floatingEl = Some (queries, valid)"
    using isValidAnchorElement_returns [OF assms, of anchor floatingEl] by auto
  obtain queries' where
    r: "firstValidAnchor h floatingEl rest =
          Some (queries',
                find (\<lambda>anchor. map_option snd (isValidAnchorElement h anchor floatingEl)
                                = Some True) rest)"
    using Cons.IH by blast
  show ?case by (cases valid) (auto simp: v r)
qed

section \<open>Facts about the example document\<close>

lemma page_simps:
  "style page = (\<lambda>e. \<lparr>position = (if e = 8 then ''absolute'' else ''''), display = ''''\<rparr>)"
  "getComputedStyle page =
     (\<lambda>e. \<lparr>position = (if e = 3 \<or> e = 8 \<or> e = 10 then ''absolute'' else ''static''),
           display = (if e = 14 then ''none'' else ''block'')\<rparr>)"
  "offsetParent page = page_offsetParent"
  "parentElement page = page_parentElement"
  "contains page = page_contains"
  "querySelector page = (\<lambda>s. if s = ''body'' then Some 1 else None)"
  "userAgent page = ''Mozilla/5.0 (X11; Linux x86_64; rv:128.0) Gecko/20100101 Firefox/128.0''"
  by (simp_all add: page_def)

lemma page_is_Firefox: "includes_str (userAgent page) ''Firefox''"
  by (simp add: page_simps)

lemma page_offsetParent_less: "page_offsetParent c = Some p \<Longrightarrow> p < c"
  by (simp add: page_offsetParent_def split: if_splits)

lemma page_acyclic: "cb_acyclic page"
  unfolding cb_acyclic_def
  by (rule wf_subset [OF wf_less]) (auto simp: page_simps dest: page_offsetParent_less)

lemma page_chain_5: "cb_chain page (Some 4) (Some 2) [4, 3]"
proof -
  have "cb_chain page (Some 2) (Some 2) []" by (rule chain_reached)
  then have "cb_chain page (Some 3) (Some 2) [3]"
    using chain_step [of 3 "Some 2" page "[]"] by (simp add: page_simps page_offsetParent_def)
  then show ?thesis
    using chain_step [of 4 "Some 2" page "[3]"] by (simp add: page_simps page_offsetParent_def)
qed

lemma page_chain_11: "cb_chain page (Some 10) (Some 2) [10, 9]"
proof -
  have "cb_chain page (Some 2) (Some 2) []" by (rule chain_reached)
  then have "cb_chain page (Some 9) (Some 2) [9]"
    using chain_step [of 9 "Some 2" page "[]"] by (simp add: page_simps page_offsetParent_def)
  then show ?thesis
    using chain_step [of 10 "Some 2" page "[9]"] by (simp add: page_simps page_offsetParent_def)
qed

section \<open>Positioning probe: properties\<close>

text \<open>
  C9: for every optional element, \<^verbatim>\<open>isAbsolutelyPositioned\<close> is true exactly when the
  element is present and its inline position or its computed position is
  \<^verbatim>\<open>"absolute"\<close>; an absent element gives false, not an error.
\<close>

theorem isAbsolutelyPositioned_iff:
  "isAbsolutelyPositioned h el =
     (\<exists>e. el = Some e \<and> (position (style h e) = ''absolute''
                          \<or> position (getComputedStyle h e) = ''absolute''))
   \<and> isAbsolutelyPositioned h None = False"
  by (cases el) (simp_all add: isAbsolutelyPositioned_def)

theorem isAbsolutelyPositioned_iff_witness:
  "isAbsolutelyPositioned page (Some 8) \<and> isAbsolutelyPositioned page (Some 3)
   \<and> \<not> isAbsolutelyPositioned page (Some 7) \<and> \<not> isAbsolutelyPositioned page None"
  using isAbsolutelyPositioned_iff [of page "Some 8"] isAbsolutelyPositioned_iff [of page "Some 3"]
    isAbsolutelyPositioned_iff [of page "Some 7"]
  by (simp add: page_simps)

section \<open>Initial-containing-block detector: properties\<close>

text \<open>
  C4: \<^verbatim>\<open>isContainingBlockICB\<close> is true exactly when the containing-block parent is
  absent or the Firefox body condition holds, and neither the element nor its tree
  parent has display none (inline or computed); so it is false whenever the element or
  its parent has display none, also with an absent containing-block parent.
\<close>

theorem isContainingBlockICB_iff:
  "snd (isContainingBlockICB h floatingElement) =
     ((offsetParent h floatingElement = None
       \<or> (offsetParent h floatingElement = querySelector h ''body''
          \<and> includes_str (userAgent h) ''Firefox''))
      \<and> \<not> hasDisplayNone h (Some floatingElement)
      \<and> \<not> hasDisplayNone h (parentElement h floatingElement))
   \<and> (hasDisplayNone h (Some floatingElement) \<or> hasDisplayNone h (parentElement h floatingElement)
        \<longrightarrow> snd (isContainingBlockICB h floatingElement) = False)
   \<and> hasDisplayNone h el =
       (\<exists>e. el = Some e \<and> (display (style h e) = ''none''
                            \<or> display (getComputedStyle h e) = ''none''))"
  by (cases el) (auto simp: isContainingBlockICB_def hasDisplayNone_def)

theorem isContainingBlockICB_iff_witness:
  "offsetParent page 12 = None \<and> snd (isContainingBlockICB page 12)
   \<and> offsetParent page 14 = None \<and> hasDisplayNone page (Some 14)
   \<and> \<not> snd (isContainingBlockICB page 14)
   \<and> offsetParent page 16 = None \<and> hasDisplayNone page (parentElement page 16)
   \<and> \<not> snd (isContainingBlockICB page 16)
   \<and> \<not> snd (isContainingBlockICB page 6)"
  using isContainingBlockICB_iff [of page 12 None] isContainingBlockICB_iff [of page 14 "Some 14"]
    isContainingBlockICB_iff [of page 16 "Some 14"] isContainingBlockICB_iff [of page 6 None]
  by (simp add: hasDisplayNone_def page_simps page_offsetParent_def page_parentElement_def)

text \<open>
  C5: when the containing-block parent is the element \<^verbatim>\<open>document.querySelector('body')\<close>
  returns and the user agent string contains \<^verbatim>\<open>Firefox\<close>, \<^verbatim>\<open>isContainingBlockICB\<close>
  gives what it gives for the same element with an absent containing-block parent.
\<close>

theorem firefox_body_as_absent:
  assumes "offsetParent h floatingElement = querySelector h ''body''"
    and "includes_str (userAgent h) ''Firefox''"
  shows "isContainingBlockICB h floatingElement
         = isContainingBlockICB (without_offsetParent h floatingElement) floatingElement"
  using assms
  by (cases "parentElement h floatingElement")
    (simp_all add: isContainingBlockICB_def without_offsetParent_def hasDisplayNone_def)

theorem firefox_body_as_absent_witness:
  "offsetParent page 15 = querySelector page ''body'' \<and> offsetParent page 15 = Some 1
   \<and> includes_str (userAgent page) ''Firefox''
   \<and> offsetParent (without_offsetParent page 15) 15 = None
   \<and> isContainingBlockICB page 15 = ([QuerySelector ''body''], True)
   \<and> isContainingBlockICB (without_offsetParent page 15) 15 = ([QuerySelector ''body''], True)"
proof -
  have a: "offsetParent page 15 = querySelector page ''body''"
    by (simp add: page_simps page_offsetParent_def)
  have b: "includes_str (userAgent page) ''Firefox''"
    by (rule page_is_Firefox)
  have c: "isContainingBlockICB page 15 = ([QuerySelector ''body''], True)"
    using b by (simp add: isContainingBlockICB_def hasDisplayNone_def page_simps
        page_offsetParent_def page_parentElement_def)
  show ?thesis
    using a b c firefox_body_as_absent [OF a b]
    by (simp add: without_offsetParent_def page_simps page_offsetParent_def)
qed

section \<open>Anchor validity predicate: properties\<close>

text \<open>
  C2: an absolutely positioned anchor whose containing-block parent is the floating
  element's containing-block parent is invalid; the function returns at Rule 1, before
  any document query.
\<close>

theorem same_cb_absolute_anchor_invalid:
  assumes "offsetParent h anchor = offsetParent h floating"
    and "isAbsolutelyPositioned h (Some anchor)"
  shows "isValidAnchorElement h anchor floating = Some ([], False)"
  using assms by (simp add: isValidAnchorElement_def)

theorem same_cb_absolute_anchor_invalid_witness:
  "offsetParent page 8 = offsetParent page 6 \<and> isAbsolutelyPositioned page (Some 8)
   \<and> isValidAnchorElement page 8 6 = Some ([], False)"
proof -
  have a: "offsetParent page 8 = offsetParent page 6"
    by (simp add: page_simps page_offsetParent_def)
  have b: "isAbsolutelyPositioned page (Some 8)"
    by (simp add: isAbsolutelyPositioned_def page_simps)
  show ?thesis using a b same_cb_absolute_anchor_invalid [OF a b] by simp
qed

text \<open>
  C1: when the containing-block parents of anchor and floating element differ, on a
  document whose containing-block links are well founded, the loop returns the chain
  that starts at the anchor's containing-block parent, accumulates each visited node and
  stops at the floating element's containing-block parent or when no parent remains.
  If the last node of that chain is absolutely positioned the anchor is invalid, and
  replacing the inline and computed position of any elements other than that last node
  (the intermediate chain nodes among them) leaves the result unchanged.
\<close>

theorem chain_tail_rule:
  assumes "cb_acyclic h"
    and "offsetParent h anchor \<noteq> offsetParent h floating"
  shows "\<exists>chain.
           cb_chain h (offsetParent h anchor) (offsetParent h floating) chain
         \<and> walkCBchain h (offsetParent h anchor) (offsetParent h floating) [] = Some chain
         \<and> (chain \<noteq> [] \<and> isAbsolutelyPositioned h (Some (last chain))
              \<longrightarrow> isValidAnchorElement h anchor floating = Some ([], False))
         \<and> (\<forall>S inline computed.
               (chain \<noteq> [] \<longrightarrow> last chain \<notin> S)
               \<longrightarrow> isValidAnchorElement (with_positions h S inline computed) anchor floating
                    = isValidAnchorElement h anchor floating)"
proof -
  obtain chain where c: "cb_chain h (offsetParent h anchor) (offsetParent h floating) chain"
    using cb_chain_exists [OF assms(1)] by blast
  have w: "walkCBchain h (offsetParent h anchor) (offsetParent h floating) [] = Some chain"
    using walkCBchain_chain [OF c, of "[]"] by simp
  have t: "isValidAnchorElement h anchor floating = Some ([], False)"
    if "chain \<noteq> []" "isAbsolutelyPositioned h (Some (last chain))"
    using that assms(2) by (simp add: isValidAnchorElement_chain [OF c])
  have i: "isValidAnchorElement (with_positions h S inline computed) anchor floating
           = isValidAnchorElement h anchor floating"
    if s: "chain \<noteq> [] \<longrightarrow> last chain \<notin> S" for S inline computed
  proof -
    let ?h' = "with_positions h S inline computed"
    have c': "cb_chain ?h' (offsetParent ?h' anchor) (offsetParent ?h' floating) chain"
      using cb_chain_same_links [OF c, of ?h'] by (simp add: with_positions_simps)
    have d': "offsetParent ?h' anchor \<noteq> offsetParent ?h' floating"
      using assms(2) by (simp add: with_positions_simps)
    have l: "isAbsolutelyPositioned ?h' (Some (last chain))
             = isAbsolutelyPositioned h (Some (last chain))" if "chain \<noteq> []"
      using s that by (simp add: with_positions_other)
    have k: "(case offsetParent ?h' floating of None \<Rightarrow> False | Some p \<Rightarrow> contains ?h' p anchor)
             = (case offsetParent h floating of None \<Rightarrow> False | Some p \<Rightarrow> contains h p anchor)"
      by (cases "offsetParent h floating") (simp_all add: with_positions_simps)
    show ?thesis
      unfolding isValidAnchorElement_differ [OF c' d']
        isValidAnchorElement_differ [OF c assms(2)] k with_positions_ICB
      using l by (cases "chain = []") simp_all
  qed
  show ?thesis using c w t i by blast
qed

theorem chain_tail_rule_witness:
  "cb_acyclic page \<and> offsetParent page 5 \<noteq> offsetParent page 6
   \<and> cb_chain page (offsetParent page 5) (offsetParent page 6) [4, 3]
   \<and> walkCBchain page (offsetParent page 5) (offsetParent page 6) [] = Some [4, 3]
   \<and> isAbsolutelyPositioned page (Some 3)
   \<and> isValidAnchorElement page 5 6 = Some ([], False)
   \<and> isValidAnchorElement (with_positions page {4} (\<lambda>e. ''absolute'') (\<lambda>e. ''absolute'')) 5 6
       = Some ([], False)"
proof -
  have a: "cb_acyclic page" by (rule page_acyclic)
  have d: "offsetParent page 5 \<noteq> offsetParent page 6"
    by (simp add: page_simps page_offsetParent_def)
  have p5: "offsetParent page 5 = Some 4" and p6: "offsetParent page 6 = Some 2"
    by (simp_all add: page_simps page_offsetParent_def)
  have abs3: "isAbsolutelyPositioned page (Some 3)"
    by (simp add: isAbsolutelyPositioned_def page_simps)
  obtain chain where
    c: "cb_chain page (offsetParent page 5) (offsetParent page 6) chain"
    and w: "walkCBchain page (offsetParent page 5) (offsetParent page 6) [] = Some chain"
    and t: "chain \<noteq> [] \<and> isAbsolutelyPositioned page (Some (last chain))
              \<longrightarrow> isValidAnchorElement page 5 6 = Some ([], False)"
    and i: "\<forall>S inline computed.
               (chain \<noteq> [] \<longrightarrow> last chain \<notin> S)
               \<longrightarrow> isValidAnchorElement (with_positions page S inline computed) 5 6
                    = isValidAnchorElement page 5 6"
    using chain_tail_rule [OF a d] by blast
  have e: "chain = [4, 3]"
    using cb_chain_unique [OF c] page_chain_5 by (simp add: p5 p6)
  have r: "isValidAnchorElement page 5 6 = Some ([], False)"
    using t e abs3 by simp
  have "isValidAnchorElement (with_positions page {4} (\<lambda>e. ''absolute'') (\<lambda>e. ''absolute'')) 5 6
        = isValidAnchorElement page 5 6"
    using i e by simp
  then show ?thesis
    using a d c w e abs3 r by simp
qed

text \<open>
  C6: when the anchor has no containing-block parent and the floating element has one,
  the loop accumulates nothing, reading the last entry of the empty chain gives
  \<^verbatim>\<open>undefined\<close>, which is not absolutely positioned, and the result is that of Rule 3:
  the body query of the ICB detector is issued and the anchor is valid exactly when the
  floating element's containing-block parent contains it or the ICB detector holds.
\<close>

theorem absent_anchor_cb_passes_rule_2:
  assumes "offsetParent h anchor = None"
    and "offsetParent h floating = Some p"
  shows "walkCBchain h (offsetParent h anchor) (offsetParent h floating) [] = Some []
       \<and> array_get ([] :: element list) (int (length ([] :: element list)) - 1) = None
       \<and> \<not> isAbsolutelyPositioned h None
       \<and> isValidAnchorElement h anchor floating =
           Some ([QuerySelector ''body''],
                 contains h p anchor \<or> snd (isContainingBlockICB h floating))"
proof -
  have c: "cb_chain h (offsetParent h anchor) (offsetParent h floating) []"
    using assms(1) by (simp add: chain_absent)
  have d: "offsetParent h anchor \<noteq> offsetParent h floating"
    using assms by simp
  show ?thesis
    using assms
    by (simp add: isValidAnchorElement_differ [OF c d] walkCBchain_None array_get_def
        isAbsolutelyPositioned_def)
qed

theorem absent_anchor_cb_passes_rule_2_witness:
  "offsetParent page 13 = None \<and> offsetParent page 15 = Some 1
   \<and> isValidAnchorElement page 13 15 = Some ([QuerySelector ''body''], True)
   \<and> offsetParent page 6 = Some 2
   \<and> isValidAnchorElement page 13 6 = Some ([QuerySelector ''body''], False)"
proof -
  have a: "offsetParent page 13 = None" and b: "offsetParent page 15 = Some 1"
    and c: "offsetParent page 6 = Some 2"
    by (simp_all add: page_simps page_offsetParent_def)
  have i: "snd (isContainingBlockICB page 15)" "\<not> snd (isContainingBlockICB page 6)"
    using page_is_Firefox
    by (simp_all add: isContainingBlockICB_def hasDisplayNone_def page_simps
        page_offsetParent_def page_parentElement_def)
  have n: "\<not> contains page 2 13"
    by (simp add: page_simps page_contains_def)
  show ?thesis
    using absent_anchor_cb_passes_rule_2 [OF a b] absent_anchor_cb_passes_rule_2 [OF a c]
      a b c i n
    by simp
qed

text \<open>
  C3: an anchor that neither Rule 1 nor Rule 2 disqualifies is valid exactly when the
  floating element's containing-block parent exists and contains the anchor, or
  \<^verbatim>\<open>isContainingBlockICB\<close> holds of the floating element; with an absent
  containing-block parent the descendant test is false and the ICB detector decides.
\<close>

theorem descendant_or_ICB_fallback:
  assumes "cb_acyclic h"
    and "\<not> (offsetParent h anchor = offsetParent h floating
             \<and> isAbsolutelyPositioned h (Some anchor))"
    and "\<forall>chain. offsetParent h anchor \<noteq> offsetParent h floating
                 \<and> cb_chain h (offsetParent h anchor) (offsetParent h floating) chain
                 \<and> chain \<noteq> []
                 \<longrightarrow> \<not> isAbsolutelyPositioned h (Some (last chain))"
  shows "isValidAnchorElement h anchor floating =
           Some ([QuerySelector ''body''],
                 (\<exists>p. offsetParent h floating = Some p \<and> contains h p anchor)
                 \<or> snd (isContainingBlockICB h floating))
       \<and> (offsetParent h floating = None
            \<longrightarrow> isValidAnchorElement h anchor floating =
                  Some ([QuerySelector ''body''], snd (isContainingBlockICB h floating)))"
proof -
  obtain chain where c: "cb_chain h (offsetParent h anchor) (offsetParent h floating) chain"
    using cb_chain_exists [OF assms(1)] by blast
  have r2: "\<not> (offsetParent h anchor \<noteq> offsetParent h floating \<and> chain \<noteq> []
               \<and> isAbsolutelyPositioned h (Some (last chain)))"
    using assms(3) c by blast
  have "isValidAnchorElement h anchor floating =
          Some ([QuerySelector ''body''],
                (case offsetParent h floating of None \<Rightarrow> False | Some p \<Rightarrow> contains h p anchor)
                \<or> snd (isContainingBlockICB h floating))"
    using assms(2) r2 unfolding isValidAnchorElement_chain [OF c] by presburger
  then show ?thesis
    by (cases "offsetParent h floating") simp_all
qed

theorem descendant_or_ICB_fallback_witness:
  "cb_acyclic page
   \<and> offsetParent page 11 \<noteq> offsetParent page 6
   \<and> cb_chain page (offsetParent page 11) (offsetParent page 6) [10, 9]
   \<and> isAbsolutelyPositioned page (Some 10) \<and> \<not> isAbsolutelyPositioned page (Some 9)
   \<and> offsetParent page 6 = Some 2 \<and> contains page 2 11
   \<and> isValidAnchorElement page 11 6 = Some ([QuerySelector ''body''], True)
   \<and> offsetParent page 13 = offsetParent page 12 \<and> offsetParent page 12 = None
   \<and> \<not> isAbsolutelyPositioned page (Some 13)
   \<and> isValidAnchorElement page 13 12 = Some ([QuerySelector ''body''], True)"
proof -
  have a: "cb_acyclic page" by (rule page_acyclic)
  have p: "offsetParent page 11 = Some 10" "offsetParent page 6 = Some 2"
    "offsetParent page 13 = None" "offsetParent page 12 = None"
    by (simp_all add: page_simps page_offsetParent_def)
  have abs: "isAbsolutelyPositioned page (Some 10)" "\<not> isAbsolutelyPositioned page (Some 9)"
    "\<not> isAbsolutelyPositioned page (Some 13)"
    by (simp_all add: isAbsolutelyPositioned_def page_simps)
  have r1: "\<not> (offsetParent page 11 = offsetParent page 6
               \<and> isAbsolutelyPositioned page (Some 11))"
    by (simp add: p)
  have r2: "\<forall>chain. offsetParent page 11 \<noteq> offsetParent page 6
                 \<and> cb_chain page (offsetParent page 11) (offsetParent page 6) chain
                 \<and> chain \<noteq> []
                 \<longrightarrow> \<not> isAbsolutelyPositioned page (Some (last chain))"
  proof (intro allI impI)
    fix chain
    assume "offsetParent page 11 \<noteq> offsetParent page 6
            \<and> cb_chain page (offsetParent page 11) (offsetParent page 6) chain \<and> chain \<noteq> []"
    then have "chain = [10, 9]"
      using cb_chain_unique [OF _ page_chain_11, of chain] by (simp add: p)
    then show "\<not> isAbsolutelyPositioned page (Some (last chain))"
      using abs by simp
  qed
  have r1': "\<not> (offsetParent page 13 = offsetParent page 12
               \<and> isAbsolutelyPositioned page (Some 13))"
    using abs by simp
  have r2': "\<forall>chain. offsetParent page 13 \<noteq> offsetParent page 12
                 \<and> cb_chain page (offsetParent page 13) (offsetParent page 12) chain
                 \<and> chain \<noteq> []
                 \<longrightarrow> \<not> isAbsolutelyPositioned page (Some (last chain))"
    by (simp add: p)
  have c: "contains page 2 11"
    by (simp add: page_simps page_contains_def)
  have i: "snd (isContainingBlockICB page 12)"
    by (simp add: isContainingBlockICB_def hasDisplayNone_def page_simps
        page_offsetParent_def page_parentElement_def)
  show ?thesis
    using descendant_or_ICB_fallback [OF a r1 r2] descendant_or_ICB_fallback [OF a r1' r2']
      a p abs c i page_chain_11
    by simp
qed

section \<open>Candidate lookup: properties\<close>

text \<open>
  C8: with an absent floating element \<^verbatim>\<open>validatedForPositioning\<close> returns \<^verbatim>\<open>null\<close>
  whatever the selectors are, as a normal result and with no document query issued.
\<close>

theorem absent_floating_returns_absent:
  "validatedForPositioning h None anchorSelectors = Some ([], Inr None)"
  by (simp add: validatedForPositioning_def)

theorem absent_floating_returns_absent_witness:
  "validatedForPositioning page None [''.tip'', ''#menu''] = Some ([], Inr None)
   \<and> validatedForPositioning page None [] = Some ([], Inr None)"
  using absent_floating_returns_absent [of page "[''.tip'', ''#menu'']"]
    absent_floating_returns_absent [of page "[]"]
  by simp

text \<open>
  C7: with a floating element present, on a document whose containing-block links are
  well founded, the selectors are joined with \<^verbatim>\<open>", "\<close> into one query, and when the
  document answers it with a list of elements the result is the first of them, in the
  order given, that \<^verbatim>\<open>isValidAnchorElement\<close> accepts against the floating element, or
  \<^verbatim>\<open>null\<close> if there is none; for the matches \<open>[E1, E2]\<close> with \<open>E1\<close> invalid and \<open>E2\<close>
  valid it is \<open>E2\<close>.
\<close>

theorem first_valid_in_document_order:
  assumes "cb_acyclic h"
    and "querySelectorAll h (join anchorSelectors '', '') = Inr anchorElements"
  shows "(\<exists>queries. validatedForPositioning h (Some floatingEl) anchorSelectors =
            Some (QuerySelectorAll (join anchorSelectors '', '') # queries,
                  Inr (find (\<lambda>anchor. map_option snd (isValidAnchorElement h anchor floatingEl)
                                        = Some True) anchorElements)))
       \<and> (anchorElements = [E1, E2]
            \<and> map_option snd (isValidAnchorElement h E1 floatingEl) = Some False
            \<and> map_option snd (isValidAnchorElement h E2 floatingEl) = Some True
            \<longrightarrow> map_option snd (validatedForPositioning h (Some floatingEl) anchorSelectors)
                  = Some (Inr (Some E2)))"
proof -
  obtain queries where
    f: "firstValidAnchor h floatingEl anchorElements =
          Some (queries,
                find (\<lambda>anchor. map_option snd (isValidAnchorElement h anchor floatingEl)
                                = Some True) anchorElements)"
    using firstValidAnchor_find [OF assms(1)] by blast
  have g: "validatedForPositioning h (Some floatingEl) anchorSelectors =
            Some (QuerySelectorAll (join anchorSelectors '', '') # queries,
                  Inr (find (\<lambda>anchor. map_option snd (isValidAnchorElement h anchor floatingEl)
                                        = Some True) anchorElements))"
    by (simp add: validatedForPositioning_def assms(2) f)
  have "map_option snd (validatedForPositioning h (Some floatingEl) anchorSelectors)
        = Some (Inr (Some E2))"
    if "anchorElements = [E1, E2]"
      "map_option snd (isValidAnchorElement h E1 floatingEl) = Some False"
      "map_option snd (isValidAnchorElement h E2 floatingEl) = Some True"
    using that by (auto simp: g)
  then show ?thesis using g by blast
qed

theorem first_valid_in_document_order_witness:
  "cb_acyclic page
   \<and> join [''.tip'', ''#menu''] '', '' = ''.tip, #menu''
   \<and> querySelectorAll page (join [''.tip'', ''#menu''] '', '') = Inr [5, 7]
   \<and> map_option snd (isValidAnchorElement page 5 6) = Some False
   \<and> map_option snd (isValidAnchorElement page 7 6) = Some True
   \<and> map_option snd (validatedForPositioning page (Some 6) [''.tip'', ''#menu''])
       = Some (Inr (Some 7))"
proof -
  have a: "cb_acyclic page" by (rule page_acyclic)
  have q: "querySelectorAll page (join [''.tip'', ''#menu''] '', '') = Inr [5, 7]"
    by (simp add: page_def)
  have p: "offsetParent page 5 = Some 4" "offsetParent page 6 = Some 2"
    "offsetParent page 7 = Some 2"
    by (simp_all add: page_simps page_offsetParent_def)
  have abs: "isAbsolutelyPositioned page (Some 3)" "\<not> isAbsolutelyPositioned page (Some 7)"
    by (simp_all add: isAbsolutelyPositioned_def page_simps)
  have c5: "cb_chain page (offsetParent page 5) (offsetParent page 6) [4, 3]"
    using page_chain_5 by (simp add: p)
  have v5: "map_option snd (isValidAnchorElement page 5 6) = Some False"
    using abs by (simp add: isValidAnchorElement_chain [OF c5] p)
  have c7: "cb_chain page (offsetParent page 7) (offsetParent page 6) []"
    by (simp add: p chain_reached)
  have "contains page 2 7" by (simp add: page_simps page_contains_def)
  then have v7: "map_option snd (isValidAnchorElement page 7 6) = Some True"
    using abs by (simp add: isValidAnchorElement_chain [OF c7] p)
  show ?thesis
    using first_valid_in_document_order [OF a q, of 6 5 7] a q v5 v7 by simp
qed

text \<open>
  C10: with a floating element present and no selectors, the joined selector is the
  empty string and \<^verbatim>\<open>querySelectorAll\<close> is still called with it: an exception it
  throws is the outcome, unchanged; an answer it gives is iterated as for any other
  selector; and every outcome has that call as its first document query.
\<close>

theorem empty_selector_list_is_queried:
  "join [] '', '' = ''''
   \<and> (querySelectorAll h '''' = Inl e
        \<longrightarrow> validatedForPositioning h (Some floatingEl) [] = Some ([QuerySelectorAll ''''], Inl e))
   \<and> (querySelectorAll h '''' = Inr anchorElements
        \<longrightarrow> validatedForPositioning h (Some floatingEl) []
            = map_option (\<lambda>(queries, found). (QuerySelectorAll '''' # queries, Inr found))
                (firstValidAnchor h floatingEl anchorElements))
   \<and> (validatedForPositioning h (Some floatingEl) [] = Some (queries, outcome)
        \<longrightarrow> queries \<noteq> [] \<and> hd queries = QuerySelectorAll '''')"
proof -
  have a: "validatedForPositioning h (Some floatingEl) [] = Some ([QuerySelectorAll ''''], Inl e)"
    if "querySelectorAll h '''' = Inl e"
    using that by (simp add: validatedForPositioning_def)
  have b: "validatedForPositioning h (Some floatingEl) []
            = map_option (\<lambda>(queries, found). (QuerySelectorAll '''' # queries, Inr found))
                (firstValidAnchor h floatingEl anchorElements)"
    if "querySelectorAll h '''' = Inr anchorElements"
    using that
    by (cases "firstValidAnchor h floatingEl anchorElements")
      (auto simp: validatedForPositioning_def)
  have c: "queries \<noteq> [] \<and> hd queries = QuerySelectorAll ''''"
    if "validatedForPositioning h (Some floatingEl) [] = Some (queries, outcome)"
    using that
    by (cases "querySelectorAll h ''''")
      (auto simp: validatedForPositioning_def split: Option.bind_splits)
  show ?thesis using a b c by simp
qed

theorem empty_selector_list_is_queried_witness:
  "querySelectorAll page '''' = Inl (SyntaxError ''The provided selector is empty'')
   \<and> validatedForPositioning page (Some 6) []
       = Some ([QuerySelectorAll ''''], Inl (SyntaxError ''The provided selector is empty''))"
proof -
  have q: "querySelectorAll page '''' = Inl (SyntaxError ''The provided selector is empty'')"
    by (simp add: page_def)
  show ?thesis
    using empty_selector_list_is_queried
      [of page "SyntaxError ''The provided selector is empty''" 6] q
    by simp
qed

end
